theory Spec2Isabelle
  imports Complex_Main
begin

section \<open>JavaScript values\<close>

text \<open>
  Strings are \<^typ>\<open>string\<close>: the text as a sequence of bytes (UTF-8; for ASCII text
  these are JavaScript's code units). Every string operation of the sources used below
  (\<open>split\<close>, \<open>endsWith\<close>, \<open>slice\<close>, \<open>includes\<close>, concatenation) acts on it
  position by position.

  A JavaScript number is an IEEE-754 double: \<open>NaN\<close>, the two infinities, or a finite
  value, kept as the rational it denotes. The sign of zero is not kept: the sources only
  apply \<open>||\<close>, \<open>>\<close> and \<open><\<close> to numbers, and none of them tells \<open>-0\<close> from \<open>+0\<close>.
\<close>

datatype jsnum = NaN | NegInf | Fin rat | PosInf

text \<open>The relational operators \<open><\<close> and \<open>>\<close> on numbers: false when an operand is \<open>NaN\<close>.\<close>

fun js_lt :: "jsnum \<Rightarrow> jsnum \<Rightarrow> bool" where
  "js_lt NaN _ = False"
| "js_lt _ NaN = False"
| "js_lt NegInf NegInf = False"
| "js_lt NegInf _ = True"
| "js_lt (Fin a) (Fin b) = (a < b)"
| "js_lt (Fin _) PosInf = True"
| "js_lt (Fin _) NegInf = False"
| "js_lt PosInf _ = False"

definition js_gt :: "jsnum \<Rightarrow> jsnum \<Rightarrow> bool" where
  "js_gt a b = js_lt b a"

text \<open>
  \<open>xs[i]\<close> on an array: \<open>undefined\<close> (here \<open>None\<close>) out of range. \<open>x || 0\<close>: the
  falsy numbers (\<open>NaN\<close>, zero) and \<open>undefined\<close> give \<open>0\<close>.
\<close>

definition at_index :: "'a list \<Rightarrow> nat \<Rightarrow> 'a option" where
  "at_index xs i = (if i < length xs then Some (xs ! i) else None)"

fun or_zero :: "jsnum option \<Rightarrow> jsnum" where
  "or_zero None = Fin 0"
| "or_zero (Some NaN) = Fin 0"
| "or_zero (Some x) = x"

text \<open>\<open>s.split(c)\<close> for a one-character separator: never the empty array.\<close>

fun split :: "char \<Rightarrow> string \<Rightarrow> string list" where
  "split c [] = [[]]"
| "split c (x # xs) =
     (if x = c then [] # split c xs
      else (case split c xs of [] \<Rightarrow> [[x]] | p # ps \<Rightarrow> (x # p) # ps))"

subsection \<open>Rounding to a double\<close>

fun bit_length :: "nat \<Rightarrow> nat" where
  "bit_length n = (if n = 0 then 0 else Suc (bit_length (n div 2)))"

declare bit_length.simps [simp del]

text \<open>For \<open>0 < a\<close>, the exponent \<open>e\<close> with \<open>2 ^ e \<le> a < 2 ^ (e + 1)\<close>.\<close>

definition ilog2 :: "rat \<Rightarrow> int" where
  "ilog2 a = (case quotient_of a of (n, d) \<Rightarrow>
     let c = int (bit_length (nat n)) - int (bit_length (nat d))
     in if 2 powi c \<le> a then c else c - 1)"

definition round_half_even :: "rat \<Rightarrow> int" where
  "round_half_even m = (let f = \<lfloor>m\<rfloor>; d = m - of_int f
     in if d < 1 / 2 then f else if 1 / 2 < d then f + 1
        else if even f then f else f + 1)"

text \<open>
  Round to nearest, ties to even, with 53 bits of precision, the least exponent \<open>-1022\<close>
  (below it the spacing stays \<open>2 ^ -1074\<close>) and overflow to an infinity from \<open>2 ^ 1024\<close>.
\<close>

definition round_double :: "rat \<Rightarrow> jsnum" where
  "round_double q = (if q = 0 then Fin 0 else
     let a = \<bar>q\<bar>;
         u = 2 powi (max (ilog2 a) (- 1022) - 52);
         r = of_int (round_half_even (a / u)) * u
     in if 2 ^ 1024 \<le> r then (if q < 0 then NegInf else PosInf)
        else Fin (if q < 0 then - r else r))"

subsection \<open>\<open>Number(string)\<close>\<close>

text \<open>
  \<open>Number\<close> applied to a string follows ECMAScript's \<open>StringToNumber\<close>: white space
  is trimmed; the empty text is \<open>0\<close>; a \<open>0x\<close>, \<open>0o\<close> or \<open>0b\<close> literal, or an
  optionally signed \<open>Infinity\<close> or decimal literal, is its value rounded to a double;
  any other text is \<open>NaN\<close>. (For a decimal literal of more than 20 significant digits
  ECMAScript also allows the double of a 20-digit approximation; the model rounds the
  exact value.)

  The white space, as UTF-8: TAB, LF, VT, FF, CR, SP, U+00A0, U+1680, U+2000 to U+200A,
  U+2028, U+2029, U+202F, U+205F, U+3000 and U+FEFF.
\<close>

fun is_white_space :: "string \<Rightarrow> bool" where
  "is_white_space [a] = (let a = of_char a :: nat in (9 \<le> a \<and> a \<le> 13) \<or> a = 32)"
| "is_white_space [a, b] = (of_char a = (194 :: nat) \<and> of_char b = (160 :: nat))"
| "is_white_space [a, b, c] =
     (let a = of_char a :: nat; b = of_char b :: nat; c = of_char c :: nat in
        (a = 225 \<and> b = 154 \<and> c = 128)
      \<or> (a = 226 \<and> b = 128 \<and> ((128 \<le> c \<and> c \<le> 138) \<or> c = 168 \<or> c = 169 \<or> c = 175))
      \<or> (a = 226 \<and> b = 129 \<and> c = 159)
      \<or> (a = 227 \<and> b = 128 \<and> c = 128)
      \<or> (a = 239 \<and> b = 187 \<and> c = 191))"
| "is_white_space _ = False"

fun drop_white_space :: "(string \<Rightarrow> bool) \<Rightarrow> string \<Rightarrow> string" where
  "drop_white_space ws (a # b # c # r) =
     (if ws [a, b, c] then drop_white_space ws r
      else if ws [a, b] then drop_white_space ws (c # r)
      else if ws [a] then drop_white_space ws (b # c # r)
      else a # b # c # r)"
| "drop_white_space ws [a, b] =
     (if ws [a, b] then []
      else if ws [a] then drop_white_space ws [b]
      else [a, b])"
| "drop_white_space ws [a] = (if ws [a] then [] else [a])"
| "drop_white_space ws [] = []"

definition trim :: "string \<Rightarrow> string" where
  "trim s = rev (drop_white_space (\<lambda>w. is_white_space (rev w))
     (rev (drop_white_space is_white_space s)))"

definition decimal_char :: "char \<Rightarrow> bool" where
  "decimal_char c = (48 \<le> (of_char c :: nat) \<and> (of_char c :: nat) \<le> 57)"

definition digit_value :: "char \<Rightarrow> nat option" where
  "digit_value c = (let n = of_char c :: nat in
     if 48 \<le> n \<and> n \<le> 57 then Some (n - 48)
     else if 97 \<le> n \<and> n \<le> 102 then Some (n - 87)
     else if 65 \<le> n \<and> n \<le> 70 then Some (n - 55)
     else None)"

definition is_digit :: "nat \<Rightarrow> char \<Rightarrow> bool" where
  "is_digit radix c = (case digit_value c of None \<Rightarrow> False | Some v \<Rightarrow> v < radix)"

definition digits_value :: "nat \<Rightarrow> string \<Rightarrow> nat" where
  "digits_value radix ds = foldl (\<lambda>a c. a * radix + the (digit_value c)) 0 ds"

definition is_digits :: "nat \<Rightarrow> string \<Rightarrow> bool" where
  "is_digits radix ds = (ds \<noteq> [] \<and> list_all (is_digit radix) ds)"

text \<open>
  \<open>0x\<close>, \<open>0o\<close> and \<open>0b\<close> literals (either case of the letter); \<open>None\<close> when the text
  has no such prefix, \<open>Some NaN\<close> when the digits after it are missing or wrong.
\<close>

definition non_decimal_literal :: "string \<Rightarrow> jsnum option" where
  "non_decimal_literal t = (case t of
     z # p # ds \<Rightarrow>
       (let radix = (if p \<in> set ''xX'' then 16 else if p \<in> set ''oO'' then 8
                     else if p \<in> set ''bB'' then 2 else 0 :: nat)
        in if z = CHR ''0'' \<and> 0 < radix
           then Some (if is_digits radix ds
                      then round_double (of_nat (digits_value radix ds)) else NaN)
           else None)
   | _ \<Rightarrow> None)"

text \<open>
  An unsigned decimal literal: digits, an optional fraction and an optional exponent,
  with a digit before or after the point. The result is the exact value it denotes.
\<close>

definition exponent_part :: "string \<Rightarrow> int option" where
  "exponent_part t = (case t of
     [] \<Rightarrow> Some 0
   | e # r \<Rightarrow>
       if e \<in> set ''eE'' then
         (let neg = (case r of s # _ \<Rightarrow> s = CHR ''-'' | [] \<Rightarrow> False);
              ds = (case r of s # r' \<Rightarrow> if s \<in> set ''+-'' then r' else r | [] \<Rightarrow> r)
          in if is_digits 10 ds
             then Some (if neg then - int (digits_value 10 ds) else int (digits_value 10 ds))
             else None)
       else None)"

definition unsigned_decimal_literal :: "string \<Rightarrow> rat option" where
  "unsigned_decimal_literal u =
     (let ip = takeWhile (is_digit 10) u;
          r1 = dropWhile (is_digit 10) u;
          fp = (case r1 of d # t \<Rightarrow> if d = CHR ''.'' then takeWhile (is_digit 10) t else []
                | [] \<Rightarrow> []);
          r2 = (case r1 of d # t \<Rightarrow> if d = CHR ''.'' then dropWhile (is_digit 10) t else r1
                | [] \<Rightarrow> [])
      in if ip = [] \<and> fp = [] then None
         else (case exponent_part r2 of
                 None \<Rightarrow> None
               | Some e \<Rightarrow>
                   Some ((of_nat (digits_value 10 ip)
                          + of_nat (digits_value 10 fp) / 10 ^ length fp) * 10 powi e)))"

definition Number :: "string \<Rightarrow> jsnum" where
  "Number s = (let t = trim s in
     if t = [] then Fin 0
     else (case non_decimal_literal t of
       Some n \<Rightarrow> n
     | None \<Rightarrow>
         (let neg = (hd t = CHR ''-'');
              u = (if hd t \<in> set ''+-'' then tl t else t)
          in if u = ''Infinity'' then (if neg then NegInf else PosInf)
             else (case unsigned_decimal_literal u of
                     None \<Rightarrow> NaN
                   | Some mv \<Rightarrow> round_double (if neg then - mv else mv)))))"

section \<open>The update check (\<open>services/appApi.ts\<close>)\<close>

subsection \<open>\<open>compareVersions\<close>\<close>

function compare_from :: "jsnum list \<Rightarrow> jsnum list \<Rightarrow> nat \<Rightarrow> nat \<Rightarrow> int" where
  "compare_from parts1 parts2 maxLength i =
     (if i < maxLength then
        (let num1 = or_zero (at_index parts1 i);
             num2 = or_zero (at_index parts2 i)
         in if js_gt num1 num2 then 1
            else if js_lt num1 num2 then - 1
            else compare_from parts1 parts2 maxLength (i + 1))
      else 0)"
  by pat_completeness auto
termination
  by (relation "measure (\<lambda>(parts1, parts2, maxLength, i). maxLength - i)") auto

declare compare_from.simps [simp del]

definition compareVersions :: "string \<Rightarrow> string \<Rightarrow> int" where
  "compareVersions v1 v2 =
     (let parts1 = map Number (split CHR ''.'' v1);
          parts2 = map Number (split CHR ''.'' v2);
          maxLength = max (length parts1) (length parts2)
      in compare_from parts1 parts2 maxLength 0)"

text \<open>\<open>parts[i] || 0\<close>, and the first index below \<open>m\<close> at which two arrays differ in it.\<close>

definition part_value :: "jsnum list \<Rightarrow> nat \<Rightarrow> jsnum" where
  "part_value parts i = or_zero (at_index parts i)"

definition first_diff :: "jsnum list \<Rightarrow> jsnum list \<Rightarrow> nat \<Rightarrow> nat \<Rightarrow> bool" where
  "first_diff p1 p2 m k =
     (k < m \<and> part_value p1 k \<noteq> part_value p2 k
      \<and> (\<forall>j. j < k \<longrightarrow> part_value p1 j = part_value p2 j))"

text \<open>
  What the claims about \<open>compareVersions\<close> compare it with: the value of segment \<open>k\<close>
  of a version (\<open>0\<close> for a segment that is missing or that \<open>Number\<close> reads as
  \<open>NaN\<close>), and the order in which the first differing segment decides.
\<close>

definition segment_count :: "string \<Rightarrow> nat" where
  "segment_count v = length (split CHR ''.'' v)"

definition segment :: "string \<Rightarrow> nat \<Rightarrow> jsnum" where
  "segment v k =
     (if k < segment_count v \<and> Number (split CHR ''.'' v ! k) \<noteq> NaN
      then Number (split CHR ''.'' v ! k) else Fin 0)"

definition version_greater :: "string \<Rightarrow> string \<Rightarrow> bool" where
  "version_greater a b =
     (\<exists>k < max (segment_count a) (segment_count b).
        js_lt (segment b k) (segment a k) \<and> (\<forall>j < k. segment a j = segment b j))"

subsection \<open>\<open>checkForUpdates\<close>\<close>

text \<open>
  A thrown value or a rejected promise: an \<open>Error\<close> object with its message, or any
  other value, kept as the string \<open>String(...)\<close> gives it.
\<close>

datatype thrown = Error string | Thrown string

record UpdateInfo =
  hasUpdate :: bool
  currentVersion :: string
  latestVersion :: string
  releaseUrl :: string
  releaseNotes :: string

text \<open>The parsed \<open>latest.json\<close>; a field the document lacks is \<open>None\<close>.\<close>

record LatestRelease =
  version :: "string option"
  "notes" :: "string option"
  pub_date :: "string option"

record Response =
  ok :: bool
  statusText :: string
  json :: "thrown + LatestRelease"

text \<open>
  The surroundings of one call: what \<open>getVersion()\<close> resolves to, and what
  \<open>fetch(LATEST_JSON_URL)\<close> resolves to. \<open>Inl\<close> is a rejected promise.
\<close>

record World =
  getVersion :: "thrown + string"
  fetch :: "thrown + Response"

definition GITHUB_REPO :: string where
  "GITHUB_REPO = ''coulsontl/ai-toolbox''"

definition GITHUB_URL :: string where
  "GITHUB_URL = ''https://github.com/'' @ GITHUB_REPO"

definition LATEST_JSON_URL :: string where
  "LATEST_JSON_URL = ''https://github.com/'' @ GITHUB_REPO @ ''/releases/latest/download/latest.json''"

text \<open>\<open>s.replace(/^v/, '')\<close>\<close>

definition replace_leading_v :: "string \<Rightarrow> string" where
  "replace_leading_v s = (case s of [] \<Rightarrow> [] | c # r \<Rightarrow> if c = CHR ''v'' then r else s)"

text \<open>\<open>x || ''\<close> on an optional string.\<close>

definition or_empty :: "string option \<Rightarrow> string" where
  "or_empty x = (case x of None \<Rightarrow> [] | Some s \<Rightarrow> s)"

text \<open>
  The result of the call, an exception as \<open>Inl\<close>, together with the URLs it has
  requested, in order.
\<close>

definition checkForUpdates :: "World \<Rightarrow> (thrown + UpdateInfo) \<times> string list" where
  "checkForUpdates w =
     (case getVersion w of
        Inl e \<Rightarrow> (Inl e, [])
      | Inr current \<Rightarrow>
          (case fetch w of
             Inl e \<Rightarrow> (Inl e, [LATEST_JSON_URL])
           | Inr response \<Rightarrow>
               if \<not> ok response
               then (Inl (Error (''Failed to fetch latest.json: '' @ statusText response)),
                     [LATEST_JSON_URL])
               else
                 (case json response of
                    Inl e \<Rightarrow> (Inl e, [LATEST_JSON_URL])
                  | Inr release \<Rightarrow>
                      (let latest = or_empty (map_option replace_leading_v (version release))
                       in (Inr \<lparr> hasUpdate = (0 < compareVersions latest current),
                                 currentVersion = current,
                                 latestVersion = latest,
                                 releaseUrl = GITHUB_URL @ ''/releases/tag/v'' @ latest,
                                 releaseNotes = or_empty (notes release) \<rparr>,
                           [LATEST_JSON_URL])))))"

subsection \<open>The specification's reading of a version\<close>

text \<open>
  The specification's data model reads a version as a sequence of non-negative
  integers: the string is split on \<open>'.'\<close> and each segment parsed as an integer, a
  missing or non-numeric segment counting as \<open>0\<close>. These definitions follow those words,
  to be compared with what the code computes. A version is plain when each of its
  segments is empty or a decimal numeral below \<open>2 ^ 53\<close>.
\<close>

definition spec_integer_segment :: "string \<Rightarrow> nat \<Rightarrow> nat" where
  "spec_integer_segment v k =
     (if k < segment_count v \<and> is_digits 10 (split CHR ''.'' v ! k)
      then digits_value 10 (split CHR ''.'' v ! k) else 0)"

definition spec_version_greater :: "string \<Rightarrow> string \<Rightarrow> bool" where
  "spec_version_greater a b =
     (\<exists>k < max (segment_count a) (segment_count b).
        spec_integer_segment b k < spec_integer_segment a k
        \<and> (\<forall>j < k. spec_integer_segment a j = spec_integer_segment b j))"

definition plain_version :: "string \<Rightarrow> bool" where
  "plain_version v =
     (\<forall>s \<in> set (split CHR ''.'' v). s = [] \<or> (is_digits 10 s \<and> digits_value 10 s < 2 ^ 53))"

text \<open>Example surroundings: a fixed current version and a response to the request.\<close>

definition world :: "string \<Rightarrow> Response \<Rightarrow> World" where
  "world current response = \<lparr> getVersion = Inr current, fetch = Inr response \<rparr>"

definition ok_response :: "string \<Rightarrow> Response" where
  "ok_response v =
     \<lparr> ok = True, statusText = ''OK'',
       json = Inr \<lparr> version = Some v, notes = Some ''notes'', pub_date = None \<rparr> \<rparr>"

section \<open>The fetch-models dialog (\<open>FetchModelsModal/index.tsx\<close>)\<close>

datatype ApiType = native | openai_compat

record FetchedModel =
  model_id :: string
  name :: "string option"
  ownedBy :: "string option"
  created :: "nat option"

record FetchModelsResponse =
  response_models :: "FetchedModel list"
  total :: nat

record Props =
  "open" :: bool
  providerName :: string
  baseUrl :: string
  apiKey :: "string option"
  headers :: "(string \<times> string) list option"
  sdkType :: "string option"
  existingModelIds :: "string list"

text \<open>The component's state: one field for each \<open>useState\<close>.\<close>

record State =
  loading :: bool
  apiType :: ApiType
  models :: "FetchedModel list"
  selectedRowKeys :: "string list"
  error :: "string option"
  fetched :: bool
  customUrl :: string
  searchText :: string

subsection \<open>String and array operations\<close>

text \<open>
  \<open>toLowerCase\<close> follows the Unicode case tables, which are no part of the
  repository. On ASCII text it maps the letters \<open>A\<close> to \<open>Z\<close> to \<open>a\<close> to \<open>z\<close> and
  keeps every other character, whatever stands around it. On text with a character
  beyond ASCII (a byte from 128 on) the result is what the parameter \<open>unicode\<close> gives
  for the whole text: the lower-casing of the platform, of which nothing is assumed.
  Every definition that lower-cases takes this parameter.

  \<open>s.includes(q)\<close>: \<open>q\<close> occurs in \<open>s\<close> as a block.
\<close>

definition ascii_lower :: "char \<Rightarrow> char" where
  "ascii_lower c = (let n = of_char c :: nat in
     if 65 \<le> n \<and> n \<le> 90 then char_of (n + 32) else c)"

definition is_ascii :: "string \<Rightarrow> bool" where
  "is_ascii s = list_all (\<lambda>c. (of_char c :: nat) < 128) s"

definition toLowerCase :: "(string \<Rightarrow> string) \<Rightarrow> string \<Rightarrow> string" where
  "toLowerCase unicode s = (if is_ascii s then map ascii_lower s else unicode s)"

fun startsWith :: "string \<Rightarrow> string \<Rightarrow> bool" where
  "startsWith s [] = True"
| "startsWith [] (q # qs) = False"
| "startsWith (c # cs) (q # qs) = (c = q \<and> startsWith cs qs)"

fun str_includes :: "string \<Rightarrow> string \<Rightarrow> bool" where
  "str_includes [] q = (q = [])"
| "str_includes (c # cs) q = (startsWith (c # cs) q \<or> str_includes cs q)"

definition endsWith :: "string \<Rightarrow> string \<Rightarrow> bool" where
  "endsWith s suffix =
     (length suffix \<le> length s \<and> drop (length s - length suffix) s = suffix)"

text \<open>\<open>s.slice(0, -n)\<close> for \<open>0 < n\<close>.\<close>

definition slice_off :: "string \<Rightarrow> nat \<Rightarrow> string" where
  "slice_off s n = take (length s - n) s"

primrec arr_includes :: "string list \<Rightarrow> string \<Rightarrow> bool" where
  "arr_includes [] x = False"
| "arr_includes (y # ys) x = (y = x \<or> arr_includes ys x)"

text \<open>
  An optional string is truthy when it is present and not empty. \<open>x && f(x)\<close> as a
  condition, for an optional string \<open>x\<close>: false when \<open>x\<close> is not truthy.
\<close>

definition and_then :: "string option \<Rightarrow> (string \<Rightarrow> bool) \<Rightarrow> bool" where
  "and_then x f = (case x of None \<Rightarrow> False | Some s \<Rightarrow> s \<noteq> [] \<and> f s)"

subsection \<open>The memoised values\<close>

definition filteredModels ::
    "(string \<Rightarrow> string) \<Rightarrow> FetchedModel list \<Rightarrow> string \<Rightarrow> FetchedModel list" where
  "filteredModels unicode ms search =
     (if search = [] then ms
      else (let lowerSearch = toLowerCase unicode search in
        filter (\<lambda>m.
            str_includes (toLowerCase unicode (model_id m)) lowerSearch
          \<or> and_then (name m) (\<lambda>n. str_includes (toLowerCase unicode n) lowerSearch)
          \<or> and_then (ownedBy m) (\<lambda>n. str_includes (toLowerCase unicode n) lowerSearch)) ms))"

definition calculatedUrl :: "string \<Rightarrow> ApiType \<Rightarrow> string option \<Rightarrow> string option \<Rightarrow> string" where
  "calculatedUrl base_url api_type sdk_type api_key =
     (let base = (if endsWith base_url ''/'' then slice_off base_url 1 else base_url);
          baseStripped =
            (if endsWith base ''/v1beta'' then slice_off base (length ''/v1beta'')
             else if endsWith base ''/v1'' then slice_off base (length ''/v1'')
             else base)
      in if api_type = native then
           (if sdk_type = Some ''@ai-sdk/google'' then
              (let url = baseStripped @ ''/v1beta/models''
               in (case api_key of
                     Some k \<Rightarrow> if k \<noteq> [] then url @ ''?key='' @ k else url
                   | None \<Rightarrow> url))
            else if sdk_type = Some ''@ai-sdk/anthropic'' then baseStripped @ ''/v1/models''
            else baseStripped @ ''/v1/models'')
         else baseStripped @ ''/v1/models'')"

subsection \<open>The component: props, state, effects and handlers\<close>

record Component =
  props :: Props
  state :: State

definition calculated :: "Component \<Rightarrow> string" where
  "calculated c =
     calculatedUrl (baseUrl (props c)) (apiType (state c)) (sdkType (props c)) (apiKey (props c))"

definition supportsNative :: "Props \<Rightarrow> bool" where
  "supportsNative p = (sdkType p = Some ''@ai-sdk/google'' \<or> sdkType p = Some ''@ai-sdk/anthropic'')"

definition initial_state :: "Props \<Rightarrow> State" where
  "initial_state p =
     \<lparr> loading = False,
       apiType = (if supportsNative p then native else openai_compat),
       models = [], selectedRowKeys = [], error = None, fetched = False,
       customUrl = [], searchText = [] \<rparr>"

text \<open>
  The two effects. The first has the dependency \<open>[calculatedUrl]\<close>, the second
  \<open>[open, calculatedUrl]\<close>: after a render, an effect runs when one of its dependencies
  differs from its value at the previous render (and after the first render).
\<close>

definition effect_customUrl :: "Component \<Rightarrow> State \<Rightarrow> State" where
  "effect_customUrl c s = s\<lparr>customUrl := calculated c\<rparr>"

definition effect_open :: "Component \<Rightarrow> State \<Rightarrow> State" where
  "effect_open c s =
     (if open (props c)
      then s\<lparr>models := [], selectedRowKeys := [], error := None, fetched := False,
             searchText := [], customUrl := calculated c\<rparr>
      else s)"

definition run_effects :: "bool \<Rightarrow> bool \<Rightarrow> Component \<Rightarrow> Component" where
  "run_effects url_changed open_changed c =
     (let s1 = (if url_changed then effect_customUrl c (state c) else state c);
          s2 = (if open_changed \<or> url_changed then effect_open c s1 else s1)
      in c\<lparr>state := s2\<rparr>)"

definition mount :: "Props \<Rightarrow> Component" where
  "mount p = run_effects True True \<lparr>props = p, state = initial_state p\<rparr>"

text \<open>\<open>handleFetch\<close>: up to the \<open>await\<close>, and from the settled promise on.\<close>

definition errorMsg :: "thrown \<Rightarrow> string" where
  "errorMsg err = (case err of Error message \<Rightarrow> message | Thrown v \<Rightarrow> v)"

definition handleFetch_begin :: "State \<Rightarrow> State" where
  "handleFetch_begin s = s\<lparr>loading := True, error := None\<rparr>"

definition handleFetch_settled :: "thrown + FetchModelsResponse \<Rightarrow> State \<Rightarrow> State" where
  "handleFetch_settled outcome s =
     (case outcome of
        Inr response \<Rightarrow>
          s\<lparr>models := response_models response, fetched := True, selectedRowKeys := []\<rparr>
      | Inl err \<Rightarrow> s\<lparr>error := Some (errorMsg err)\<rparr>)
     \<lparr>loading := False\<rparr>"

definition handleFetch :: "thrown + FetchModelsResponse \<Rightarrow> State \<Rightarrow> State" where
  "handleFetch outcome s = handleFetch_settled outcome (handleFetch_begin s)"

text \<open>\<open>handleConfirm\<close>: the argument it calls \<open>onSuccess\<close> with.\<close>

definition handleConfirm :: "State \<Rightarrow> FetchedModel list" where
  "handleConfirm s = filter (\<lambda>m. arr_includes (selectedRowKeys s) (model_id m)) (models s)"

text \<open>
  What changes the component: the parent renders it with other props; the radio group,
  the URL input, the reset button, the fetch button (and the promise it awaits
  settling), the search input, the table's checkboxes and the alert's close button. The
  confirm and cancel buttons only call \<open>onSuccess\<close> and \<open>onCancel\<close>.
\<close>

datatype Event =
    Render Props
  | ChangeApiType ApiType
  | ChangeUrl string
  | ResetUrl
  | ClickFetch
  | FetchSettled "thrown + FetchModelsResponse"
  | ChangeSearch string
  | ChangeSelection "string list"
  | CloseError

definition handle :: "Event \<Rightarrow> Component \<Rightarrow> Component" where
  "handle ev c =
     (case ev of
        Render p \<Rightarrow> c\<lparr>props := p\<rparr>
      | ChangeApiType t \<Rightarrow> c\<lparr>state := (state c)\<lparr>apiType := t\<rparr>\<rparr>
      | ChangeUrl u \<Rightarrow> c\<lparr>state := (state c)\<lparr>customUrl := u\<rparr>\<rparr>
      | ResetUrl \<Rightarrow> c\<lparr>state := (state c)\<lparr>customUrl := calculated c\<rparr>\<rparr>
      | ClickFetch \<Rightarrow> c\<lparr>state := handleFetch_begin (state c)\<rparr>
      | FetchSettled outcome \<Rightarrow> c\<lparr>state := handleFetch_settled outcome (state c)\<rparr>
      | ChangeSearch q \<Rightarrow> c\<lparr>state := (state c)\<lparr>searchText := q\<rparr>\<rparr>
      | ChangeSelection keys \<Rightarrow> c\<lparr>state := (state c)\<lparr>selectedRowKeys := keys\<rparr>\<rparr>
      | CloseError \<Rightarrow> c\<lparr>state := (state c)\<lparr>error := None\<rparr>\<rparr>)"

text \<open>One event: its handler, the render, and the effects whose dependencies changed.\<close>

definition step :: "Component \<Rightarrow> Event \<Rightarrow> Component" where
  "step c ev =
     (let c' = handle ev c
      in run_effects (calculated c' \<noteq> calculated c)
           (open (props c') \<noteq> open (props c)) c')"

definition run :: "Component \<Rightarrow> Event list \<Rightarrow> Component" where
  "run c evs = foldl step c evs"

subsection \<open>The table\<close>

text \<open>
  The table shows one row for each record of its \<open>dataSource\<close>, in order. A row is the
  record, whether the id column's \<open>render\<close> adds the already-exists label, and the
  checkbox props \<open>getCheckboxProps\<close> gives it.
\<close>

record CheckboxProps =
  disabled :: bool
  checkbox_name :: string

record Row =
  row_record :: FetchedModel
  isExisting :: bool
  checkbox :: CheckboxProps

definition render_id :: "Props \<Rightarrow> string \<Rightarrow> bool" where
  "render_id p i = arr_includes (existingModelIds p) i"

definition getCheckboxProps :: "Props \<Rightarrow> FetchedModel \<Rightarrow> CheckboxProps" where
  "getCheckboxProps p record =
     \<lparr> disabled = arr_includes (existingModelIds p) (model_id record),
       checkbox_name = model_id record \<rparr>"

definition table_rows :: "Props \<Rightarrow> FetchedModel list \<Rightarrow> Row list" where
  "table_rows p dataSource =
     map (\<lambda>record. \<lparr> row_record = record,
                      isExisting = render_id p (model_id record),
                      checkbox = getCheckboxProps p record \<rparr>) dataSource"

definition table :: "(string \<Rightarrow> string) \<Rightarrow> Component \<Rightarrow> Row list option" where
  "table unicode c =
     (if fetched (state c)
      then Some (table_rows (props c)
                   (filteredModels unicode (models (state c)) (searchText (state c))))
      else None)"

subsection \<open>What the claims compare the dialog with\<close>



text \<open>
  In the words of the specification, with no lower-casing: two characters are the same
  letter when they are equal or are the capital and the small form of one of the letters
  \<open>A\<close> to \<open>Z\<close>; a field contains the query as a case-insensitive substring when a
  block of the field has the query's length and agrees with it letter by letter; a model
  matches when its id, its name (if present) or its owner (if present) does.
\<close>

definition same_letter :: "char \<Rightarrow> char \<Rightarrow> bool" where
  "same_letter c d = (let a = of_char c :: nat; b = of_char d :: nat in
     a = b \<or> (65 \<le> a \<and> a \<le> 90 \<and> b = a + 32) \<or> (65 \<le> b \<and> b \<le> 90 \<and> a = b + 32))"




text \<open>
  The two \<open>sdkType\<close> values with a native API (the specification's Google-style and
  Anthropic-style), and the policy table: what follows the stripped base URL. The key is
  appended when it is present and not empty.
\<close>

definition google :: "string option" where
  "google = Some ''@ai-sdk/google''"

definition anthropic :: "string option" where
  "anthropic = Some ''@ai-sdk/anthropic''"

definition endpoint :: "ApiType \<Rightarrow> string option \<Rightarrow> string option \<Rightarrow> string" where
  "endpoint api_type sdk_type api_key =
     (if api_type = native \<and> sdk_type = google
      then ''/v1beta/models'' @
           (case api_key of None \<Rightarrow> [] | Some k \<Rightarrow> if k = [] then [] else ''?key='' @ k)
      else ''/v1/models'')"

text \<open>
  The specification's words for the URL: the base URL with a trailing \<open>/v1\<close> or
  \<open>/v1beta\<close> stripped, followed by the table's entry, the key appended when present.
\<close>

definition spec_stripped :: "string \<Rightarrow> string" where
  "spec_stripped b =
     (if endsWith b ''/v1beta'' then slice_off b (length ''/v1beta'')
      else if endsWith b ''/v1'' then slice_off b (length ''/v1'')
      else b)"

definition spec_buildFetchUrl ::
    "string \<Rightarrow> ApiType \<Rightarrow> string option \<Rightarrow> string option \<Rightarrow> string" where
  "spec_buildFetchUrl b api_type sdk_type api_key =
     spec_stripped b @
     (if api_type = openai_compat then ''/v1/models''
      else if sdk_type = google
           then ''/v1beta/models'' @ (case api_key of None \<Rightarrow> [] | Some k \<Rightarrow> ''?key='' @ k)
           else ''/v1/models'')"

text \<open>
  Example inputs. The text of the examples is ASCII; where an example needs a
  lower-casing of other text, it is the one that keeps such text as it is.
\<close>

definition unmapped :: "string \<Rightarrow> string" where
  "unmapped s = s"

definition model :: "string \<Rightarrow> FetchedModel" where
  "model i = \<lparr> model_id = i, name = None, ownedBy = None, created = None \<rparr>"


definition google_props :: Props where
  "google_props =
     \<lparr> open = True, providerName = ''Google'', baseUrl = ''https://api.x.com'',
       apiKey = Some ''KEY'', headers = None, sdkType = Some ''@ai-sdk/google'',
       existingModelIds = [''gpt-4''] \<rparr>"

definition searching :: State where
  "searching =
     \<lparr> loading = False, apiType = native,
       models = [model ''gpt-4'', model ''claude-3''],
       selectedRowKeys = [''claude-3'', ''gpt-4''],
       error = None, fetched = True, customUrl = [], searchText = ''gpt'' \<rparr>"

definition listing :: Component where
  "listing =
     \<lparr> props = google_props,
       state = \<lparr> loading = False, apiType = native,
                 models = [model ''gpt-4'', model ''gpt-5''], selectedRowKeys = [],
                 error = None, fetched = True, customUrl = [], searchText = [] \<rparr> \<rparr>"

section \<open>Properties of the update check\<close>

subsection \<open>\<open>Number\<close> on decimal digits\<close>

lemma bit_length_bounds: "0 < n \<Longrightarrow> 2 ^ (bit_length n - 1) \<le> n \<and> n < 2 ^ bit_length n"
proof (induction n rule: bit_length.induct)
  case (1 n)
  show ?case
  proof (cases "n div 2 = 0")
    case True
    with "1.prems" have "n = 1" by (simp add: div_eq_0_iff) 
    then show ?thesis by (simp add: bit_length.simps [of "Suc 0"] bit_length.simps [of 0])
  next
    case False
    then have pos: "0 < n div 2" by simp
    with "1.IH" "1.prems" have ih: "2 ^ (bit_length (n div 2) - 1) \<le> n div 2" "n div 2 < 2 ^ bit_length (n div 2)"
      by auto
    have bl: "bit_length n = Suc (bit_length (n div 2))"
      using "1.prems" by (subst bit_length.simps) simp
    have bpos: "0 < bit_length (n div 2)"
      using pos by (subst bit_length.simps) simp
    then obtain b where b: "bit_length (n div 2) = Suc b" by (cases "bit_length (n div 2)") auto
    from ih b have "2 * 2 ^ b \<le> n" "n < 2 * 2 ^ Suc b" by auto
    then show ?thesis by (simp add: bl b)
  qed
qed


lemma int_bounds:
  assumes "0 < (n::int)"
  shows "(2::rat) ^ (bit_length (nat n) - 1) \<le> of_int n"
    and "of_int n < (2::rat) ^ bit_length (nat n)"
proof -
  from assms have m: "0 < nat n" and n: "n = int (nat n)" by simp_all
  from bit_length_bounds [OF m]
  have "(of_nat (2 ^ (bit_length (nat n) - 1)) :: rat) \<le> of_nat (nat n)"
    and "(of_nat (nat n) :: rat) < of_nat (2 ^ bit_length (nat n))"
    by (simp_all only: of_nat_le_iff of_nat_less_iff)
  moreover have "(of_nat (nat n) :: rat) = of_int n"
    using assms by simp
  ultimately show "(2::rat) ^ (bit_length (nat n) - 1) \<le> of_int n"
    and "of_int n < (2::rat) ^ bit_length (nat n)"
    by (simp_all only: of_nat_power of_nat_numeral)
qed

lemma ilog2_bounds:
  assumes "0 < a"
  shows "2 powi (ilog2 a) \<le> a \<and> a < 2 powi (ilog2 a + 1)"
proof -
  obtain n d where q: "quotient_of a = (n, d)" by (cases "quotient_of a")
  then have d: "0 < d" and a: "a = of_int n / of_int d"
    by (auto dest: quotient_of_denom_pos quotient_of_div)
  with assms have n: "0 < n" by (simp add: zero_less_divide_iff)
  define bn where "bn = bit_length (nat n)"
  define bd where "bd = bit_length (nat d)"
  define c where "c = int bn - int bd"
  have nb: "(2::rat) ^ (bn - 1) \<le> of_int n" "of_int n < (2::rat) ^ bn"
    using int_bounds [OF n] by (simp_all add: bn_def)
  have db: "(2::rat) ^ (bd - 1) \<le> of_int d" "of_int d < (2::rat) ^ bd"
    using int_bounds [OF d] by (simp_all add: bd_def)
  have bnpos: "0 < bn" "0 < bd"
    using n d unfolding bn_def bd_def by (subst bit_length.simps, simp)+
  have dpos: "(0::rat) < of_int d" using d by simp
  have upper: "a < 2 powi (c + 1)"
  proof -
    have "of_int n * (2::rat) ^ (bd - 1) < 2 ^ bn * of_int d"
    proof -
      have "of_int n * (2::rat) ^ (bd - 1) < 2 ^ bn * 2 ^ (bd - 1)"
        using nb(2) by (intro mult_strict_right_mono) auto
      also have "\<dots> \<le> 2 ^ bn * of_int d"
        using db(1) by (intro mult_left_mono) auto
      finally show ?thesis .
    qed
    then have "a < 2 ^ bn / 2 ^ (bd - 1)"
      unfolding a using dpos by (simp add: field_simps)
    also have "\<dots> = 2 powi (int bn - int (bd - 1))"
      by (simp add: power_int_diff)
    also have "int bn - int (bd - 1) = c + 1"
      using bnpos by (simp add: c_def of_nat_diff)
    finally show ?thesis .
  qed
  have lower: "2 powi (c - 1) \<le> a"
  proof -
    have "(2::rat) ^ (bn - 1) * of_int d \<le> of_int n * 2 ^ bd"
      using nb(1) db(2) dpos n by (intro mult_mono) auto
    then have "2 ^ (bn - 1) / 2 ^ bd \<le> a"
      unfolding a using dpos by (simp add: field_simps)
    moreover have "(2::rat) ^ (bn - 1) / 2 ^ bd = 2 powi (int (bn - 1) - int bd)"
      by (simp add: power_int_diff)
    moreover have "int (bn - 1) - int bd = c - 1"
      using bnpos by (simp add: c_def of_nat_diff)
    ultimately show ?thesis by simp
  qed
  have il: "ilog2 a = (if 2 powi c \<le> a then c else c - 1)"
    by (simp add: ilog2_def q Let_def c_def bn_def bd_def)
  show ?thesis
  proof (cases "2 powi c \<le> a")
    case True
    with il upper show ?thesis by simp
  next
    case False
    with il lower show ?thesis by simp
  qed
qed

lemma ilog2_eqI:
  assumes "0 < a" "2 powi e \<le> a" "a < 2 powi (e + 1)"
  shows "ilog2 a = e"
proof (rule ccontr)
  assume ne: "ilog2 a \<noteq> e"
  from ilog2_bounds [OF assms(1)]
  have b: "2 powi (ilog2 a) \<le> a" "a < 2 powi (ilog2 a + 1)" by auto
  show False
  proof (cases "ilog2 a < e")
    case True
    then have "(2::rat) powi (ilog2 a + 1) \<le> 2 powi e"
      by (intro power_int_increasing) auto
    with b(2) assms(2) show False by simp
  next
    case False
    with ne have "e + 1 \<le> ilog2 a" by simp
    then have "(2::rat) powi (e + 1) \<le> 2 powi (ilog2 a)"
      by (intro power_int_increasing) auto
    with b(1) assms(3) show False by simp
  qed
qed

lemma round_half_even_of_int: "round_half_even (of_int k) = k"
  by (simp add: round_half_even_def)


lemma round_double_pos:
  assumes "0 < q" "2 powi e \<le> q" "q < 2 powi (e + 1)" "- 1022 \<le> e"
  shows "round_double q =
    (let u = 2 powi (e - 52); r = of_int (round_half_even (q / u)) * u
     in if 2 ^ 1024 \<le> r then PosInf else Fin r)"
  using assms(1,4) by (simp add: round_double_def ilog2_eqI [OF assms(1-3)] Let_def max_def)

lemma round_double_of_nat:
  assumes "n < 2 ^ 53"
  shows "round_double (of_nat n) = Fin (of_nat n)"
proof (cases "n = 0")
  case True
  then show ?thesis by (simp add: round_double_def)
next
  case False
  define q :: rat where "q = of_nat n"
  define e where "e = ilog2 q"
  from False have q: "0 < q" "1 \<le> q" by (simp_all add: q_def)
  from assms have "(of_nat n :: rat) < of_nat (2 ^ 53)" by (simp only: of_nat_less_iff)
  then have q53: "q < 2 ^ 53" by (simp add: q_def)
  from ilog2_bounds [OF q(1)] have b: "2 powi e \<le> q" "q < 2 powi (e + 1)"
    by (simp_all add: e_def)
  have e0: "0 \<le> e"
  proof (rule ccontr)
    assume "\<not> 0 \<le> e"
    then have "(2::rat) powi (e + 1) \<le> 2 powi 0" by (intro power_int_increasing) auto
    with b(2) q(2) show False by simp
  qed
  have e52: "e \<le> 52"
  proof (rule ccontr)
    assume "\<not> e \<le> 52"
    then have "(2::rat) powi 53 \<le> 2 powi e" by (intro power_int_increasing) auto
    with b(1) q53 show False by simp
  qed
  define k where "k = nat (52 - e)"
  have u: "(2::rat) powi (e - 52) = 1 / 2 ^ k"
    using e52 by (simp add: k_def power_int_def field_simps)
  have "q / (2 powi (e - 52)) = of_int (int n * 2 ^ k)"
    by (simp add: u q_def)
  then have r: "of_int (round_half_even (q / (2 powi (e - 52)))) * 2 powi (e - 52) = q"
    by (simp only: round_half_even_of_int) (simp add: u q_def)
  have "\<not> (2::rat) ^ 1024 \<le> q"
    using q53 by simp
  then show ?thesis
    using round_double_pos [OF q(1) b] e0 r by (simp add: Let_def q_def)
qed


lemma is_digit_10: "is_digit 10 c = decimal_char c"
  by (auto simp: is_digit_def digit_value_def decimal_char_def Let_def)

lemma is_white_space_ends:
  "is_white_space w \<Longrightarrow> w \<noteq> [] \<and> \<not> decimal_char (hd w) \<and> \<not> decimal_char (last w)"
  by (cases w rule: is_white_space.cases) (auto simp: decimal_char_def Let_def)

lemma drop_white_space_id:
  assumes "\<And>w. ws w \<Longrightarrow> w \<noteq> [] \<and> \<not> D (hd w)" and "s \<noteq> []" and "D (hd s)"
  shows "drop_white_space ws s = s"
proof (cases "(ws, s)" rule: drop_white_space.cases)
  case (1 ws' a b c r)
  with assms(1) [of "[a, b, c]"] assms(1) [of "[a, b]"] assms(1) [of "[a]"] assms(3)
  show ?thesis by auto
next
  case (2 ws' a b)
  with assms(1) [of "[a, b]"] assms(1) [of "[a]"] assms(3) show ?thesis by auto
next
  case (3 ws' a)
  with assms(1) [of "[a]"] assms(3) show ?thesis by auto
next
  case (4 ws')
  with assms(2) show ?thesis by simp
qed

lemma trim_digits:
  assumes "is_digits 10 ds"
  shows "trim ds = ds"
proof -
  from assms have ne: "ds \<noteq> []" and hd: "decimal_char (hd ds)" and last: "decimal_char (last ds)"
    by (auto simp: is_digits_def list_all_iff is_digit_10)
  have 1: "drop_white_space is_white_space ds = ds"
    using ne hd by (intro drop_white_space_id [where D = decimal_char]) (auto dest: is_white_space_ends)
  have 2: "drop_white_space (\<lambda>w. is_white_space (rev w)) (rev ds) = rev ds"
  proof (rule drop_white_space_id [where D = decimal_char])
    fix w assume "is_white_space (rev w)"
    from is_white_space_ends [OF this] show "w \<noteq> [] \<and> \<not> decimal_char (hd w)"
      by (auto simp: last_rev)
  next
    show "rev ds \<noteq> []" using ne by simp
    show "decimal_char (hd (rev ds))" using last ne by (simp add: hd_rev)
  qed
  show ?thesis by (simp add: trim_def 1 2)
qed

lemma non_decimal_literal_digits:
  assumes "list_all (is_digit 10) ds"
  shows "non_decimal_literal ds = None"
proof (cases ds)
  case Nil
  then show ?thesis by (simp add: non_decimal_literal_def)
next
  case (Cons z r)
  show ?thesis
  proof (cases r)
    case Nil
    with Cons show ?thesis by (simp add: non_decimal_literal_def)
  next
    case (Cons p r')
    with assms \<open>ds = z # r\<close> have "decimal_char p" by (simp add: is_digit_10)
    then have "p \<notin> set ''xXoObB''" by (auto simp: decimal_char_def)
    with Cons \<open>ds = z # r\<close> show ?thesis by (simp add: non_decimal_literal_def)
  qed
qed

lemma unsigned_decimal_literal_digits:
  assumes "is_digits 10 ds"
  shows "unsigned_decimal_literal ds = Some (of_nat (digits_value 10 ds))"
proof -
  from assms have all: "\<forall>c \<in> set ds. is_digit 10 c" and ne: "ds \<noteq> []"
    by (auto simp: is_digits_def list_all_iff)
  then have tw: "takeWhile (is_digit 10) ds = ds" and dw: "dropWhile (is_digit 10) ds = []"
    by simp_all
  show ?thesis
    using ne by (simp add: unsigned_decimal_literal_def tw dw exponent_part_def digits_value_def)
qed

lemma Number_digits:
  assumes "is_digits 10 ds"
  shows "Number ds = round_double (of_nat (digits_value 10 ds))"
proof -
  from assms have ne: "ds \<noteq> []" and all: "list_all (is_digit 10) ds"
    by (auto simp: is_digits_def)
  then have hd: "decimal_char (hd ds)"
    by (cases ds) (auto simp: is_digit_10)
  then have sign: "hd ds \<notin> set ''+-''" and inf: "ds \<noteq> ''Infinity''"
    by (auto simp: decimal_char_def)
  show ?thesis
    using ne sign inf
    by (simp add: Number_def trim_digits [OF assms] non_decimal_literal_digits [OF all]
        unsigned_decimal_literal_digits [OF assms] Let_def)
qed

lemma Number_small:
  "is_digits 10 ds \<Longrightarrow> digits_value 10 ds < 2 ^ 53 \<Longrightarrow> Number ds = Fin (of_nat (digits_value 10 ds))"
  by (simp add: Number_digits round_double_of_nat)

lemma Number_empty: "Number [] = Fin 0"
  by (simp add: Number_def trim_def)

lemma Number_9007199254740993: "Number ''9007199254740993'' = Fin 9007199254740992"
proof -
  have d: "is_digits 10 ''9007199254740993''"
    by (simp add: is_digits_def is_digit_def digit_value_def)
  have v: "digits_value 10 ''9007199254740993'' = 9007199254740993"
    by (simp add: digits_value_def digit_value_def)
  have fl: "\<lfloor>(9007199254740993::rat) / 2\<rfloor> = 4503599627370496"
    by (simp add: floor_eq_iff)
  have "round_double 9007199254740993 = Fin 9007199254740992"
    by (subst round_double_pos [where e = 53]) (simp_all add: round_half_even_def Let_def fl)
  then show ?thesis by (simp add: Number_digits [OF d] v)
qed

subsection \<open>The comparison loop\<close>

lemma or_zero_not_NaN: "or_zero x \<noteq> NaN"
  by (cases x rule: or_zero.cases) simp_all

lemma js_lt_irrefl: "\<not> js_lt a a"
  by (cases a) simp_all

lemma js_lt_asym: "js_lt a b \<Longrightarrow> \<not> js_lt b a"
  by (cases a; cases b) simp_all

lemma js_lt_trichotomy: "a \<noteq> NaN \<Longrightarrow> b \<noteq> NaN \<Longrightarrow> js_lt a b \<or> a = b \<or> js_lt b a"
  by (cases a; cases b) auto

lemma compare_from_range: "compare_from p1 p2 m i \<in> {- 1, 0, 1}"
proof (induction p1 p2 m i rule: compare_from.induct)
  case (1 p1 p2 m i)
  then show ?case
    by (subst compare_from.simps) (simp add: Let_def)
qed

lemma compare_from_skip:
  "i \<le> k \<Longrightarrow> k \<le> m \<Longrightarrow> (\<forall>j. i \<le> j \<and> j < k \<longrightarrow> part_value p1 j = part_value p2 j)
   \<Longrightarrow> compare_from p1 p2 m i = compare_from p1 p2 m k"
proof (induction "k - i" arbitrary: i)
  case 0
  then show ?case by simp
next
  case (Suc d)
  then have lt: "i < m" and eq: "part_value p1 i = part_value p2 i" by auto
  have "compare_from p1 p2 m i = compare_from p1 p2 m (i + 1)"
    using lt eq by (subst compare_from.simps) (simp add: Let_def part_value_def js_gt_def js_lt_irrefl)
  also have "\<dots> = compare_from p1 p2 m k"
    using Suc by (intro Suc.hyps(1)) auto
  finally show ?case .
qed

lemma compare_from_end: "compare_from p1 p2 m m = 0"
  by (subst compare_from.simps) simp

lemma compare_from_gt:
  "k < m \<Longrightarrow> js_lt (part_value p2 k) (part_value p1 k) \<Longrightarrow> compare_from p1 p2 m k = 1"
  by (subst compare_from.simps) (simp add: Let_def part_value_def js_gt_def)

lemma compare_from_lt:
  "k < m \<Longrightarrow> js_lt (part_value p1 k) (part_value p2 k) \<Longrightarrow> compare_from p1 p2 m k = - 1"
  by (subst compare_from.simps) (auto simp add: Let_def part_value_def js_gt_def dest: js_lt_asym)

lemma first_diff_cases:
  "(\<forall>k. k < m \<longrightarrow> part_value p1 k = part_value p2 k) \<or> (\<exists>k. first_diff p1 p2 m k)"
proof (cases "\<forall>k. k < m \<longrightarrow> part_value p1 k = part_value p2 k")
  case True
  then show ?thesis by simp
next
  case False
  define P where "P k = (k < m \<and> part_value p1 k \<noteq> part_value p2 k)" for k
  from False have "\<exists>k. P k" by (auto simp: P_def)
  then have "P (LEAST k. P k)" and "\<And>j. j < (LEAST k. P k) \<Longrightarrow> \<not> P j"
    by (auto intro: LeastI_ex dest: not_less_Least)
  then have "first_diff p1 p2 m (LEAST k. P k)"
    unfolding first_diff_def P_def by (metis less_trans)
  then show ?thesis by blast
qed

lemma first_diff_unique: "first_diff p1 p2 m k \<Longrightarrow> first_diff p1 p2 m k' \<Longrightarrow> k = k'"
  unfolding first_diff_def by (metis linorder_neqE_nat)

lemma compare_from_all_equal:
  "(\<forall>k. k < m \<longrightarrow> part_value p1 k = part_value p2 k) \<Longrightarrow> compare_from p1 p2 m 0 = 0"
  using compare_from_skip [of 0 m m p1 p2] by (simp add: compare_from_end)

lemma compare_from_first_diff:
  assumes "first_diff p1 p2 m k"
  shows "compare_from p1 p2 m 0 =
           (if js_lt (part_value p2 k) (part_value p1 k) then 1 else - 1)"
proof -
  from assms have k: "k < m" and ne: "part_value p1 k \<noteq> part_value p2 k"
    and eq: "\<forall>j. 0 \<le> j \<and> j < k \<longrightarrow> part_value p1 j = part_value p2 j"
    by (auto simp: first_diff_def)
  have skip: "compare_from p1 p2 m 0 = compare_from p1 p2 m k"
    using k eq by (intro compare_from_skip) auto
  have "js_lt (part_value p1 k) (part_value p2 k) \<or> js_lt (part_value p2 k) (part_value p1 k)"
    using ne js_lt_trichotomy [of "part_value p1 k" "part_value p2 k"]
    by (auto simp: part_value_def or_zero_not_NaN)
  then show ?thesis
    using k skip by (auto simp: compare_from_gt compare_from_lt dest: js_lt_asym)
qed


lemma js_lt_first_diff:
  "k < m \<Longrightarrow> js_lt (part_value p2 k) (part_value p1 k) \<Longrightarrow>
   (\<forall>j < k. part_value p1 j = part_value p2 j) \<Longrightarrow> first_diff p1 p2 m k"
  unfolding first_diff_def using js_lt_irrefl by fastforce

lemma first_diff_sym: "first_diff p1 p2 m k \<Longrightarrow> first_diff p2 p1 m k"
  unfolding first_diff_def by auto

lemma compare_from_eq_1:
  "compare_from p1 p2 m 0 = 1 \<longleftrightarrow>
   (\<exists>k < m. js_lt (part_value p2 k) (part_value p1 k) \<and> (\<forall>j < k. part_value p1 j = part_value p2 j))"
  (is "?l \<longleftrightarrow> ?r")
proof
  assume ?r
  then obtain k where k: "k < m" "js_lt (part_value p2 k) (part_value p1 k)"
    "\<forall>j < k. part_value p1 j = part_value p2 j" by blast
  then have "first_diff p1 p2 m k" by (rule js_lt_first_diff)
  from compare_from_first_diff [OF this] k(2) show ?l by simp
next
  assume l: ?l
  from first_diff_cases [of m p1 p2] show ?r
  proof
    assume "\<forall>k. k < m \<longrightarrow> part_value p1 k = part_value p2 k"
    from compare_from_all_equal [OF this] l show ?r by simp
  next
    assume "\<exists>k. first_diff p1 p2 m k"
    then obtain k where fd: "first_diff p1 p2 m k" ..
    from compare_from_first_diff [OF fd] l
    have "js_lt (part_value p2 k) (part_value p1 k)" by (simp split: if_splits)
    with fd show ?r unfolding first_diff_def by blast
  qed
qed

lemma compare_from_eq_minus_1:
  "compare_from p1 p2 m 0 = - 1 \<longleftrightarrow>
   (\<exists>k < m. js_lt (part_value p1 k) (part_value p2 k) \<and> (\<forall>j < k. part_value p1 j = part_value p2 j))"
  (is "?l \<longleftrightarrow> ?r")
proof
  assume ?r
  then obtain k where k: "k < m" "js_lt (part_value p1 k) (part_value p2 k)"
    "\<forall>j < k. part_value p1 j = part_value p2 j" by blast
  then have "first_diff p2 p1 m k" by (intro js_lt_first_diff) auto
  then have "first_diff p1 p2 m k" by (rule first_diff_sym)
  from compare_from_first_diff [OF this] k(2) show ?l by (auto dest: js_lt_asym)
next
  assume l: ?l
  from first_diff_cases [of m p1 p2] show ?r
  proof
    assume "\<forall>k. k < m \<longrightarrow> part_value p1 k = part_value p2 k"
    from compare_from_all_equal [OF this] l show ?r by simp
  next
    assume "\<exists>k. first_diff p1 p2 m k"
    then obtain k where fd: "first_diff p1 p2 m k" ..
    from compare_from_first_diff [OF fd] l
    have n: "\<not> js_lt (part_value p2 k) (part_value p1 k)" by (simp split: if_splits)
    from fd have "part_value p1 k \<noteq> part_value p2 k" by (simp add: first_diff_def)
    with n js_lt_trichotomy [of "part_value p1 k" "part_value p2 k"]
    have "js_lt (part_value p1 k) (part_value p2 k)"
      by (auto simp: part_value_def or_zero_not_NaN)
    with fd show ?r unfolding first_diff_def by blast
  qed
qed

lemma compare_from_eq_0:
  "compare_from p1 p2 m 0 = 0 \<longleftrightarrow> (\<forall>k < m. part_value p1 k = part_value p2 k)"
proof -
  from first_diff_cases [of m p1 p2] show ?thesis
  proof
    assume a: "\<forall>k. k < m \<longrightarrow> part_value p1 k = part_value p2 k"
    from compare_from_all_equal [OF this] a show ?thesis by simp
  next
    assume "\<exists>k. first_diff p1 p2 m k"
    then obtain k where fd: "first_diff p1 p2 m k" ..
    from compare_from_first_diff [OF fd] fd show ?thesis
      by (auto simp: first_diff_def)
  qed
qed

lemma compare_from_swap: "compare_from p1 p2 m i = - compare_from p2 p1 m i"
proof (induction p1 p2 m i rule: compare_from.induct)
  case (1 p1 p2 m i)
  show ?case
  proof (cases "i < m")
    case False
    then show ?thesis by (simp add: compare_from.simps [of _ _ m i])
  next
    case True
    let ?a = "or_zero (at_index p1 i)" and ?b = "or_zero (at_index p2 i)"
    consider "js_lt ?b ?a" | "js_lt ?a ?b" | "\<not> js_lt ?b ?a" "\<not> js_lt ?a ?b" by blast
    then show ?thesis
    proof cases
      case 1
      then have "\<not> js_lt ?a ?b" by (rule js_lt_asym)
      with 1 True show ?thesis
        by (simp add: compare_from.simps [of _ _ m i] js_gt_def Let_def)
    next
      case 2
      then have "\<not> js_lt ?b ?a" by (rule js_lt_asym)
      with 2 True show ?thesis
        by (simp add: compare_from.simps [of _ _ m i] js_gt_def Let_def)
    next
      case 3
      with True "1.IH" [OF True refl refl] show ?thesis
        by (simp add: compare_from.simps [of _ _ m i] js_gt_def Let_def)
    qed
  qed
qed

lemma part_value_segment: "part_value (map Number (split CHR ''.'' v)) k = segment v k"
  by (cases "Number (split CHR ''.'' v ! k)")
     (simp_all add: part_value_def at_index_def segment_def segment_count_def)

lemma compareVersions_eq:
  "compareVersions v1 v2 =
     compare_from (map Number (split CHR ''.'' v1)) (map Number (split CHR ''.'' v2))
       (max (segment_count v1) (segment_count v2)) 0"
  by (simp add: compareVersions_def Let_def segment_count_def)

lemma compareVersions_eq_1: "compareVersions v1 v2 = 1 \<longleftrightarrow> version_greater v1 v2"
  by (simp add: compareVersions_eq compare_from_eq_1 part_value_segment version_greater_def)

lemma compareVersions_eq_minus_1: "compareVersions v1 v2 = - 1 \<longleftrightarrow> version_greater v2 v1"
  by (simp add: compareVersions_eq compare_from_eq_minus_1 part_value_segment version_greater_def
      max.commute eq_commute [of "segment v1 _"])

lemma compareVersions_eq_0:
  "compareVersions v1 v2 = 0 \<longleftrightarrow>
   (\<forall>k < max (segment_count v1) (segment_count v2). segment v1 k = segment v2 k)"
  by (simp add: compareVersions_eq compare_from_eq_0 part_value_segment)

lemma compareVersions_range: "compareVersions v1 v2 \<in> {- 1, 0, 1}"
  unfolding compareVersions_eq by (rule compare_from_range)

lemmas version_eval =
  compareVersions_def Let_def Number_small Number_empty is_digits_def is_digit_def
  digit_value_def digits_value_def compare_from.simps at_index_def js_gt_def

subsection \<open>Plain versions\<close>

lemma segment_plain:
  assumes "plain_version v"
  shows "segment v k = Fin (of_nat (spec_integer_segment v k))"
proof (cases "k < segment_count v")
  case False
  then show ?thesis by (simp add: segment_def spec_integer_segment_def)
next
  case True
  then have "split CHR ''.'' v ! k \<in> set (split CHR ''.'' v)"
    by (simp add: segment_count_def)
  with assms have "split CHR ''.'' v ! k = [] \<or>
      (is_digits 10 (split CHR ''.'' v ! k) \<and> digits_value 10 (split CHR ''.'' v ! k) < 2 ^ 53)"
    unfolding plain_version_def by blast
  then show ?thesis
  proof
    assume "split CHR ''.'' v ! k = []"
    then show ?thesis
      by (simp add: segment_def spec_integer_segment_def Number_empty is_digits_def)
  next
    assume "is_digits 10 (split CHR ''.'' v ! k) \<and> digits_value 10 (split CHR ''.'' v ! k) < 2 ^ 53"
    then show ?thesis
      using True by (simp add: segment_def spec_integer_segment_def Number_small)
  qed
qed

lemma version_greater_plain:
  assumes "plain_version a" "plain_version b"
  shows "version_greater a b \<longleftrightarrow> spec_version_greater a b"
  by (simp add: version_greater_def spec_version_greater_def
      segment_plain [OF assms(1)] segment_plain [OF assms(2)])

lemma Number_9007199254740992: "Number ''9007199254740992'' = Fin 9007199254740992"
proof -
  have d: "is_digits 10 ''9007199254740992''"
    by (simp add: is_digits_def is_digit_def digit_value_def)
  have v: "digits_value 10 ''9007199254740992'' = 9007199254740992"
    by (simp add: digits_value_def digit_value_def)
  have "(9007199254740992::rat) / 2 = of_int 4503599627370496" by simp
  then have "round_half_even ((9007199254740992::rat) / 2) = 4503599627370496"
    by (simp only: round_half_even_of_int)
  then have "round_double 9007199254740992 = Fin 9007199254740992"
    by (subst round_double_pos [where e = 53]) (simp_all add: Let_def)
  then show ?thesis by (simp add: Number_digits [OF d] v)
qed

lemma hasUpdate_eq: "0 < compareVersions a b \<longleftrightarrow> version_greater a b"
  using compareVersions_range [of a b] compareVersions_eq_1 [of a b] by auto

lemma plain_2_0_0: "plain_version ''2.0.0''"
  by (simp add: plain_version_def is_digits_def is_digit_def digit_value_def digits_value_def)

lemma plain_1_9_9: "plain_version ''1.9.9''"
  by (simp add: plain_version_def is_digits_def is_digit_def digit_value_def digits_value_def)

subsection \<open>Claims about \<open>compareVersions\<close>\<close>

text \<open>
  C1. \<open>compareVersions\<close> is a total function of two strings: it has a result for every
  pair, malformed or not (\<open>split\<close>, \<open>Number\<close>, an index past the end and \<open>||\<close> each
  have a value for every input, and the loop ends), and the result is \<open>-1\<close>, \<open>0\<close> or
  \<open>1\<close>. Each argument is split on \<open>'.'\<close> and each segment read by
  \<open>Number\<close>, a segment that is missing or not numeric counting as \<open>0\<close>
  (\<^const>\<open>segment\<close>); the segments are compared index by index up to the longer
  length, and the first index at which they differ decides: the result is \<open>1\<close> exactly
  when the first version has the greater segment there, \<open>-1\<close> exactly when the second
  has, and \<open>0\<close> exactly when no index differs. In particular
  \<open>compareVersions("1.2.0", "1.10.0") = -1\<close> and \<open>compareVersions("1.2", "1.2.0") = 0\<close>.
\<close>

theorem compareVersions_total:
  "compareVersions v1 v2 \<in> {- 1, 0, 1}
   \<and> (compareVersions v1 v2 = 1 \<longleftrightarrow> version_greater v1 v2)
   \<and> (compareVersions v1 v2 = - 1 \<longleftrightarrow> version_greater v2 v1)
   \<and> (compareVersions v1 v2 = 0 \<longleftrightarrow>
        (\<forall>k < max (segment_count v1) (segment_count v2). segment v1 k = segment v2 k))
   \<and> compareVersions ''1.2.0'' ''1.10.0'' = - 1
   \<and> compareVersions ''1.2'' ''1.2.0'' = 0"
proof -
  have "compareVersions ''1.2.0'' ''1.10.0'' = - 1"
    by (simp add: version_eval)
  moreover have "compareVersions ''1.2'' ''1.2.0'' = 0"
    by (simp add: version_eval)
  ultimately show ?thesis
    using compareVersions_range [of v1 v2] compareVersions_eq_1 [of v1 v2]
      compareVersions_eq_minus_1 [of v1 v2] compareVersions_eq_0 [of v1 v2]
    by blast
qed

theorem compareVersions_total_witness:
  "compareVersions ''2.0.0'' ''1.9.9'' = 1 \<and> version_greater ''2.0.0'' ''1.9.9''
   \<and> \<not> version_greater ''1.9.9'' ''2.0.0''"
proof -
  have "compareVersions ''2.0.0'' ''1.9.9'' = 1"
    by (simp add: version_eval)
  with compareVersions_total [of "''2.0.0''" "''1.9.9''"] show ?thesis by simp
qed

text \<open>
  C9. \<open>compareVersions\<close> is anti-symmetric, \<open>compareVersions(a, b) = -compareVersions(b, a)\<close>
  for every two strings, and reflexive, \<open>compareVersions(a, a) = 0\<close> for every string.
\<close>

theorem compareVersions_antisymmetric:
  "compareVersions a b = - compareVersions b a \<and> compareVersions a a = 0"
proof -
  have swap: "compareVersions x y = - compareVersions y x" for x y
    unfolding compareVersions_eq by (subst compare_from_swap) (simp add: max.commute)
  from swap [of a a] have "compareVersions a a = 0" by simp
  with swap [of a b] show ?thesis by simp
qed

subsection \<open>Claims about \<open>checkForUpdates\<close>\<close>

text \<open>
  C2, as amended. When the current version is known, the request succeeds and its body
  parses, \<open>checkForUpdates\<close> returns an \<open>UpdateInfo\<close> whose \<open>hasUpdate\<close> is true if
  and only if the latest version (the \<open>version\<close> field without a leading \<open>v\<close>, the
  empty string when absent) is greater than the current one segment by segment, the
  first differing segment deciding, where a segment's value is the double that
  \<open>Number\<close> reads it as and \<open>0\<close> when it is missing or not numeric; otherwise
  \<open>hasUpdate\<close> is false. For plain versions, whose segments are empty or decimal
  numerals below \<open>2 ^ 53\<close>, this is the comparison of the integer segment sequences.
\<close>

theorem hasUpdate_iff_version_greater:
  assumes "getVersion w = Inr current" and "fetch w = Inr response"
    and "ok response" and "json response = Inr release"
  shows "\<exists>info. fst (checkForUpdates w) = Inr info
           \<and> currentVersion info = current
           \<and> latestVersion info = or_empty (map_option replace_leading_v (version release))
           \<and> (hasUpdate info \<longleftrightarrow> version_greater (latestVersion info) current)
           \<and> (plain_version (latestVersion info) \<and> plain_version current \<longrightarrow>
                (hasUpdate info \<longleftrightarrow> spec_version_greater (latestVersion info) current))"
  using assms
  by (simp add: checkForUpdates_def Let_def hasUpdate_eq version_greater_plain)

theorem hasUpdate_iff_version_greater_witness:
  "\<exists>info. fst (checkForUpdates (world ''1.9.9'' (ok_response ''v2.0.0''))) = Inr info
     \<and> latestVersion info = ''2.0.0'' \<and> hasUpdate info
     \<and> version_greater ''2.0.0'' ''1.9.9'' \<and> spec_version_greater ''2.0.0'' ''1.9.9''"
proof -
  have c: "compareVersions ''2.0.0'' ''1.9.9'' = 1"
    by (simp add: version_eval)
  have "getVersion (world ''1.9.9'' (ok_response ''v2.0.0'')) = Inr ''1.9.9''"
    "fetch (world ''1.9.9'' (ok_response ''v2.0.0'')) = Inr (ok_response ''v2.0.0'')"
    "ok (ok_response ''v2.0.0'')"
    "json (ok_response ''v2.0.0'') = Inr \<lparr> version = Some ''v2.0.0'', notes = Some ''notes'', pub_date = None \<rparr>"
    by (simp_all add: world_def ok_response_def)
  from hasUpdate_iff_version_greater [OF this]
  obtain info where i: "fst (checkForUpdates (world ''1.9.9'' (ok_response ''v2.0.0''))) = Inr info"
    and l: "latestVersion info = or_empty (map_option replace_leading_v
              (version \<lparr> version = Some ''v2.0.0'', notes = Some ''notes'', pub_date = None \<rparr>))"
    and g: "hasUpdate info \<longleftrightarrow> version_greater (latestVersion info) ''1.9.9''"
    and p: "plain_version (latestVersion info) \<and> plain_version ''1.9.9'' \<longrightarrow>
       (hasUpdate info \<longleftrightarrow> spec_version_greater (latestVersion info) ''1.9.9'')"
    by blast
  from l have l': "latestVersion info = ''2.0.0''"
    by (simp add: or_empty_def replace_leading_v_def)
  from i have h: "hasUpdate info"
    by (auto simp add: checkForUpdates_def world_def ok_response_def Let_def or_empty_def
        replace_leading_v_def c)
  from h g l' have "version_greater ''2.0.0'' ''1.9.9''" by simp
  moreover from h p l' plain_2_0_0 plain_1_9_9 have "spec_version_greater ''2.0.0'' ''1.9.9''" by simp
  ultimately show ?thesis using i l' h by blast
qed

text \<open>
  C2, as stated, fails: the segments \<open>9007199254740993\<close> and \<open>9007199254740992\<close>
  are different integers and the same double, so the latest version's integer sequence is
  the greater one while \<open>hasUpdate\<close> is false.
\<close>

theorem hasUpdate_integer_counterexample:
  "spec_version_greater ''9007199254740993'' ''9007199254740992''
   \<and> fst (checkForUpdates (world ''9007199254740992'' (ok_response ''9007199254740993'')))
       = Inr \<lparr> hasUpdate = False,
               currentVersion = ''9007199254740992'',
               latestVersion = ''9007199254740993'',
               releaseUrl = ''https://github.com/coulsontl/ai-toolbox/releases/tag/v9007199254740993'',
               releaseNotes = ''notes'' \<rparr>"
proof -
  have "spec_integer_segment ''9007199254740993'' 0 = 9007199254740993"
    and "spec_integer_segment ''9007199254740992'' 0 = 9007199254740992"
    by (simp_all add: spec_integer_segment_def segment_count_def
        is_digits_def is_digit_def digit_value_def digits_value_def)
  then have "spec_version_greater ''9007199254740993'' ''9007199254740992''"
    by (simp add: spec_version_greater_def segment_count_def)
  moreover have "Number ''9007199254740992'' = Fin 9007199254740992"
    by (rule Number_9007199254740992)
  then have "compareVersions ''9007199254740993'' ''9007199254740992'' = 0"
    by (simp add: compareVersions_def Let_def Number_9007199254740993 compare_from.simps
        at_index_def js_gt_def)
  ultimately show ?thesis
    by (simp add: checkForUpdates_def world_def ok_response_def Let_def or_empty_def
        replace_leading_v_def GITHUB_URL_def GITHUB_REPO_def)
qed

text \<open>
  C7. When the response to the update check has a non-success status,
  \<open>checkForUpdates\<close> throws an \<open>Error\<close> whose message contains the response's status
  text: the call ends in that exception, so no \<open>UpdateInfo\<close> is returned and the caller
  receives the error, and exactly one request has been made.
\<close>

theorem http_error_is_thrown:
  assumes "getVersion w = Inr current" and "fetch w = Inr response" and "\<not> ok response"
  shows "checkForUpdates w =
           (Inl (Error (''Failed to fetch latest.json: '' @ statusText response)), [LATEST_JSON_URL])
         \<and> (\<exists>pre post. ''Failed to fetch latest.json: '' @ statusText response
                = pre @ statusText response @ post)"
proof -
  have "''Failed to fetch latest.json: '' @ statusText response
          = ''Failed to fetch latest.json: '' @ statusText response @ []" by simp
  then have "\<exists>pre post. ''Failed to fetch latest.json: '' @ statusText response
                = pre @ statusText response @ post" by blast
  with assms show ?thesis by (simp add: checkForUpdates_def)
qed

theorem http_error_is_thrown_witness:
  "checkForUpdates (world ''1.0.0'' \<lparr> ok = False, statusText = ''Not Found'', json = Inl (Thrown ''SyntaxError'') \<rparr>)
     = (Inl (Error ''Failed to fetch latest.json: Not Found''), [LATEST_JSON_URL])"
  using http_error_is_thrown [of "world ''1.0.0'' \<lparr> ok = False, statusText = ''Not Found'', json = Inl (Thrown ''SyntaxError'') \<rparr>"
      "''1.0.0''" "\<lparr> ok = False, statusText = ''Not Found'', json = Inl (Thrown ''SyntaxError'') \<rparr>"]
  by (simp add: world_def)

section \<open>Properties of the fetch-models dialog\<close>

subsection \<open>Strings and arrays\<close>



lemma arr_includes_iff: "arr_includes xs x \<longleftrightarrow> x \<in> set xs"
  by (induction xs) auto

lemma toLowerCase_ascii: "is_ascii s \<Longrightarrow> toLowerCase unicode s = map ascii_lower s"
  by (simp add: toLowerCase_def)






text \<open>On ASCII text, containment after lower-casing is containment letter by letter.\<close>

lemma of_char_ascii_lower:
  "(of_char (ascii_lower c) :: nat) =
     (if 65 \<le> (of_char c :: nat) \<and> (of_char c :: nat) \<le> 90 then of_char c + 32 else of_char c)"
proof (cases "65 \<le> (of_char c :: nat) \<and> (of_char c :: nat) \<le> 90")
  case True
  then have "(of_char c + 32 :: nat) mod 256 = of_char c + 32" by simp
  with True show ?thesis by (simp add: ascii_lower_def Let_def)
next
  case False
  then show ?thesis by (auto simp add: ascii_lower_def Let_def)
qed

lemma ascii_lower_eq_iff: "ascii_lower c = ascii_lower d \<longleftrightarrow> same_letter c d"
proof -
  have "ascii_lower c = ascii_lower d \<longleftrightarrow>
          (of_char (ascii_lower c) :: nat) = of_char (ascii_lower d)"
    by simp
  also have "\<dots> \<longleftrightarrow> same_letter c d"
    unfolding of_char_ascii_lower same_letter_def Let_def by (auto split: if_splits)
  finally show ?thesis .
qed







subsection \<open>The URL\<close>

lemma endsWith_append: "endsWith (r @ s) s"
  by (simp add: endsWith_def)

lemma endsWith_iff: "endsWith b s \<longleftrightarrow> (\<exists>r. b = r @ s)"
proof
  assume "endsWith b s"
  then have "b = take (length b - length s) b @ s"
    by (metis append_take_drop_id endsWith_def)
  then show "\<exists>r. b = r @ s" ..
next
  assume "\<exists>r. b = r @ s"
  then show "endsWith b s" by (auto simp: endsWith_append)
qed

lemma slice_off_append: "slice_off (r @ s) (length s) = r"
  by (simp add: slice_off_def)

lemma calculatedUrl_endpoint:
  "calculatedUrl b t sdk key =
     (let base = (if endsWith b ''/'' then slice_off b 1 else b)
      in spec_stripped base @ endpoint t sdk key)"
  by (cases t; cases key)
     (auto simp: calculatedUrl_def endpoint_def spec_stripped_def Let_def and_then_def google_def)

lemma not_endsWith_last: "last s \<noteq> last b \<Longrightarrow> s \<noteq> [] \<Longrightarrow> b \<noteq> [] \<Longrightarrow> \<not> endsWith b s"
  by (auto simp: endsWith_iff)

lemma base_v1: "calculatedUrl (r @ ''/v1'') t sdk key = r @ endpoint t sdk key"
proof -
  have 1: "\<not> endsWith (r @ ''/v1'') ''/''"
    by (rule not_endsWith_last) simp_all
  have 2: "\<not> endsWith (r @ ''/v1'') ''/v1beta''"
    by (rule not_endsWith_last) simp_all
  have 3: "endsWith (r @ ''/v1'') ''/v1''" by (rule endsWith_append)
  have "slice_off (r @ ''/v1'') (length ''/v1'') = r" by (rule slice_off_append)
  with 1 2 3 show ?thesis
    by (simp add: calculatedUrl_endpoint spec_stripped_def)
qed

lemma base_v1beta: "calculatedUrl (r @ ''/v1beta'') t sdk key = r @ endpoint t sdk key"
proof -
  have 1: "\<not> endsWith (r @ ''/v1beta'') ''/''"
    by (rule not_endsWith_last) simp_all
  have 3: "endsWith (r @ ''/v1beta'') ''/v1beta''" by (rule endsWith_append)
  have "slice_off (r @ ''/v1beta'') (length ''/v1beta'') = r" by (rule slice_off_append)
  with 1 3 show ?thesis
    by (simp add: calculatedUrl_endpoint spec_stripped_def)
qed

lemma base_slash:
  "calculatedUrl (r @ ''/'') t sdk key = spec_stripped r @ endpoint t sdk key"
proof -
  have "endsWith (r @ ''/'') ''/''" by (rule endsWith_append)
  moreover have "slice_off (r @ ''/'') 1 = r" using slice_off_append [of r "''/''"] by simp
  ultimately show ?thesis by (simp add: calculatedUrl_endpoint)
qed

lemma base_plain:
  "\<not> endsWith b ''/'' \<Longrightarrow> calculatedUrl b t sdk key = spec_stripped b @ endpoint t sdk key"
  by (simp add: calculatedUrl_endpoint)

lemma calc_native:
  "calculatedUrl ''https://api.x.com'' native (Some ''@ai-sdk/google'') (Some ''KEY'')
     = ''https://api.x.com/v1beta/models?key=KEY''"
  by (simp add: calculatedUrl_def endsWith_def slice_off_def and_then_def)

lemma calc_compat:
  "calculatedUrl ''https://api.x.com'' openai_compat (Some ''@ai-sdk/google'') (Some ''KEY'')
     = ''https://api.x.com/v1/models''"
  by (simp add: calculatedUrl_def endsWith_def slice_off_def and_then_def)

subsection \<open>Events without effects\<close>

lemma no_effects: "run_effects False False c = c"
  by (simp add: run_effects_def)

lemma calculated_state:
  "apiType s' = apiType (state c) \<Longrightarrow> calculated (c\<lparr>state := s'\<rparr>) = calculated c"
  by (simp add: calculated_def)


lemma step_ClickFetch: "step c ClickFetch = c\<lparr>state := handleFetch_begin (state c)\<rparr>"
  by (simp add: step_def handle_def Let_def calculated_state no_effects handleFetch_begin_def)

lemma step_FetchSettled:
  "step c (FetchSettled (Inl err)) = c\<lparr>state := handleFetch_settled (Inl err) (state c)\<rparr>"
  by (simp add: step_def handle_def Let_def calculated_state no_effects handleFetch_settled_def)

subsection \<open>Claims about the URL\<close>

text \<open>
  C3, as amended. The derived URL is the base URL with one trailing \<open>/\<close> removed, if
  there is one, and then a trailing \<open>/v1beta\<close> or \<open>/v1\<close> removed, if there is one,
  followed by \<open>/v1/models\<close> when \<open>apiType\<close> is \<open>openai_compat\<close> (for any
  \<open>sdkType\<close>), by \<open>/v1beta/models\<close>, and then \<open>?key=\<close> and the key when the key is
  present and not empty, for the native Google case, and by \<open>/v1/models\<close> for the
  native Anthropic case and every other native \<open>sdkType\<close>. So a base \<open>r/v1\<close>,
  \<open>r/v1beta\<close>, \<open>r/v1/\<close> or \<open>r/v1beta/\<close> gives \<open>r\<close> and the endpoint, and a base with
  neither suffix gives itself, without its trailing \<open>/\<close>, and the endpoint. The two
  examples of the specification hold.
\<close>

theorem calculatedUrl_policy:
  "calculatedUrl b t sdk key =
     spec_stripped (if endsWith b ''/'' then slice_off b 1 else b) @ endpoint t sdk key
   \<and> calculatedUrl (r @ ''/v1'') t sdk key = r @ endpoint t sdk key
   \<and> calculatedUrl (r @ ''/v1beta'') t sdk key = r @ endpoint t sdk key
   \<and> calculatedUrl (r @ ''/v1/'') t sdk key = r @ endpoint t sdk key
   \<and> calculatedUrl (r @ ''/v1beta/'') t sdk key = r @ endpoint t sdk key
   \<and> (\<not> endsWith r ''/v1'' \<and> \<not> endsWith r ''/v1beta'' \<longrightarrow>
        calculatedUrl (r @ ''/'') t sdk key = r @ endpoint t sdk key
        \<and> (\<not> endsWith r ''/'' \<longrightarrow> calculatedUrl r t sdk key = r @ endpoint t sdk key))
   \<and> endpoint openai_compat sdk key = ''/v1/models''
   \<and> endpoint native google (Some (k # ks)) = ''/v1beta/models?key='' @ k # ks
   \<and> endpoint native google None = ''/v1beta/models''
   \<and> endpoint native google (Some []) = ''/v1beta/models''
   \<and> (sdk \<noteq> google \<longrightarrow> endpoint native sdk key = ''/v1/models'')
   \<and> calculatedUrl ''https://api.x.com/v1'' native google (Some ''KEY'')
        = ''https://api.x.com/v1beta/models?key=KEY''
   \<and> calculatedUrl ''https://api.x.com/v1beta'' native anthropic None
        = ''https://api.x.com/v1/models''"
proof -
  have a: "calculatedUrl (r @ ''/v1/'') t sdk key = r @ endpoint t sdk key"
    using base_slash [of "r @ ''/v1''" t sdk key]
    by (simp add: spec_stripped_def endsWith_append slice_off_def not_endsWith_last)
  have b: "calculatedUrl (r @ ''/v1beta/'') t sdk key = r @ endpoint t sdk key"
    using base_slash [of "r @ ''/v1beta''" t sdk key] endsWith_append [of r "''/v1beta''"]
    by (simp add: spec_stripped_def slice_off_def)
  have c: "\<not> endsWith r ''/v1'' \<and> \<not> endsWith r ''/v1beta'' \<longrightarrow>
        calculatedUrl (r @ ''/'') t sdk key = r @ endpoint t sdk key
        \<and> (\<not> endsWith r ''/'' \<longrightarrow> calculatedUrl r t sdk key = r @ endpoint t sdk key)"
    using base_slash [of r t sdk key] base_plain [of r t sdk key] by (simp add: spec_stripped_def)
  have d: "calculatedUrl ''https://api.x.com/v1'' native google (Some ''KEY'')
        = ''https://api.x.com/v1beta/models?key=KEY''"
    using base_v1 [of "''https://api.x.com''" native google "Some ''KEY''"]
    by (simp add: endpoint_def)
  have e: "calculatedUrl ''https://api.x.com/v1beta'' native anthropic None
        = ''https://api.x.com/v1/models''"
    using base_v1beta [of "''https://api.x.com''" native anthropic None]
    by (simp add: endpoint_def google_def anthropic_def)
  have f: "endpoint openai_compat sdk key = ''/v1/models''"
    "endpoint native google (Some (k # ks)) = ''/v1beta/models?key='' @ k # ks"
    "endpoint native google None = ''/v1beta/models''"
    "endpoint native google (Some []) = ''/v1beta/models''"
    "sdk \<noteq> google \<longrightarrow> endpoint native sdk key = ''/v1/models''"
    by (simp_all add: endpoint_def)
  from calculatedUrl_endpoint [of b t sdk key] base_v1 [of r t sdk key] base_v1beta [of r t sdk key]
    a b c d e f
  show ?thesis unfolding Let_def by (intro conjI)
qed

theorem calculatedUrl_policy_witness:
  "calculatedUrl ''https://api.x.com/'' openai_compat None None = ''https://api.x.com/v1/models''
   \<and> calculatedUrl ''https://api.x.com'' native anthropic (Some ''KEY'') = ''https://api.x.com/v1/models''"
proof -
  have n: "\<not> endsWith ''https://api.x.com'' ''/v1''" "\<not> endsWith ''https://api.x.com'' ''/v1beta''"
    "\<not> endsWith ''https://api.x.com'' ''/''"
    by (simp_all add: endsWith_def)
  have g: "anthropic \<noteq> google"
    by (simp add: anthropic_def google_def)
  from calculatedUrl_policy [where b = "[]" and r = "''https://api.x.com''" and t = openai_compat
        and sdk = None and key = None] n
  have 1: "calculatedUrl (''https://api.x.com'' @ ''/'') openai_compat None None
             = ''https://api.x.com'' @ ''/v1/models''"
    by metis
  from calculatedUrl_policy [where b = "[]" and r = "''https://api.x.com''" and t = native
        and sdk = anthropic and key = "Some ''KEY''"] n g
  have 2: "calculatedUrl ''https://api.x.com'' native anthropic (Some ''KEY'')
             = ''https://api.x.com'' @ ''/v1/models''"
    by metis
  from 1 2 show ?thesis by simp
qed

text \<open>
  C3, as stated, fails on a base URL that ends in \<open>/\<close>: the code removes the slash
  before it looks for \<open>/v1\<close>, the specification's words do not.
\<close>

theorem buildFetchUrl_trailing_slash_counterexample:
  "calculatedUrl ''https://api.x.com/'' openai_compat None None = ''https://api.x.com/v1/models''
   \<and> spec_buildFetchUrl ''https://api.x.com/'' openai_compat None None = ''https://api.x.com//v1/models''"
  by (simp add: calculatedUrl_def spec_buildFetchUrl_def spec_stripped_def endsWith_def
      slice_off_def Let_def)

text \<open>
  C4. The claim: an edit of the URL field is replaced by the computed default only on a
  reset or a fresh open. The code: the dialog opens for a Google provider, the user edits
  the URL, then selects the other API type; the computed URL changes, both effects run,
  and the edit is replaced by the new default.
\<close>

theorem customUrl_overwritten:
  "customUrl (state (mount google_props)) = ''https://api.x.com/v1beta/models?key=KEY''
   \<and> customUrl (state (run (mount google_props) [ChangeUrl ''https://proxy.local/models'']))
        = ''https://proxy.local/models''
   \<and> customUrl (state (run (mount google_props)
          [ChangeUrl ''https://proxy.local/models'', ChangeApiType openai_compat]))
        = ''https://api.x.com/v1/models''"
  by (simp add: run_def step_def handle_def mount_def run_effects_def effect_customUrl_def
      effect_open_def initial_state_def supportsNative_def google_props_def calculated_def
      calc_native calc_compat Let_def)

subsection \<open>Claims about the model list\<close>



text \<open>
  C6. For every array of existing model ids and every sequence of fetched models, the
  table has one row for each fetched model, in the order of the sequence, also where
  two models share an id; a row carries the already-exists label if and only if the
  model's id is among the existing ids, and its checkbox is disabled exactly when it
  carries the label. After a fetch and with no search text, every fetched model has its
  row. No event but a render by the parent changes the props, the existing ids among
  them.
\<close>

theorem table_rows_reconcile:
  "map row_record (table_rows p ms) = ms
   \<and> (\<forall>r \<in> set (table_rows p ms).
         (isExisting r \<longleftrightarrow> model_id (row_record r) \<in> set (existingModelIds p))
         \<and> (disabled (checkbox r) \<longleftrightarrow> isExisting r))
   \<and> (fetched (state c) \<and> searchText (state c) = [] \<longrightarrow>
         table unicode c = Some (table_rows (props c) (models (state c))))
   \<and> (\<forall>ev. (\<forall>p'. ev \<noteq> Render p') \<longrightarrow> props (step c ev) = props c)
   \<and> map isExisting (table_rows google_props [model ''gpt-4'', model ''gpt-5'', model ''gpt-4''])
        = [True, False, True]"
proof -
  have 1: "map row_record (table_rows p ms) = ms"
    by (simp add: table_rows_def comp_def)
  have 2: "\<forall>r \<in> set (table_rows p ms).
         (isExisting r \<longleftrightarrow> model_id (row_record r) \<in> set (existingModelIds p))
         \<and> (disabled (checkbox r) \<longleftrightarrow> isExisting r)"
    by (auto simp: table_rows_def render_id_def getCheckboxProps_def arr_includes_iff)
  have 3: "fetched (state c) \<and> searchText (state c) = [] \<longrightarrow>
         table unicode c = Some (table_rows (props c) (models (state c)))"
    by (simp add: table_def filteredModels_def)
  have 4: "\<forall>ev. (\<forall>p'. ev \<noteq> Render p') \<longrightarrow> props (step c ev) = props c"
  proof (intro allI impI)
    fix ev assume "\<forall>p'. ev \<noteq> Render p'"
    then show "props (step c ev) = props c"
      by (cases ev) (simp_all add: step_def handle_def run_effects_def Let_def)
  qed
  have 5: "map isExisting (table_rows google_props [model ''gpt-4'', model ''gpt-5'', model ''gpt-4''])
        = [True, False, True]"
    by (simp add: table_rows_def render_id_def google_props_def model_def)
  from 1 2 3 4 5 show ?thesis by (intro conjI)
qed

theorem table_rows_reconcile_witness:
  "table unmapped listing = Some (table_rows google_props [model ''gpt-4'', model ''gpt-5''])
   \<and> map (\<lambda>r. disabled (checkbox r)) (table_rows google_props [model ''gpt-4'', model ''gpt-5''])
        = [True, False]
   \<and> props (step listing (ChangeSelection [''gpt-5''])) = google_props"
proof -
  note t = table_rows_reconcile [of google_props "[model ''gpt-4'', model ''gpt-5'']" listing unmapped]
  have "fetched (state listing) \<and> searchText (state listing) = []"
    by (simp add: listing_def)
  with t have "table unmapped listing = Some (table_rows (props listing) (models (state listing)))"
    by blast
  then have 1: "table unmapped listing = Some (table_rows google_props [model ''gpt-4'', model ''gpt-5''])"
    by (simp add: listing_def)
  have "\<forall>p'. ChangeSelection [''gpt-5''] \<noteq> Render p'" by simp
  with t have "props (step listing (ChangeSelection [''gpt-5''])) = props listing"
    by blast
  then have 2: "props (step listing (ChangeSelection [''gpt-5''])) = google_props"
    by (simp add: listing_def)
  have 3: "map (\<lambda>r. disabled (checkbox r)) (table_rows google_props [model ''gpt-4'', model ''gpt-5''])
        = [True, False]"
    by (simp add: table_rows_def getCheckboxProps_def google_props_def model_def)
  from 1 2 3 show ?thesis by (intro conjI)
qed

text \<open>
  C8. When a fetch or a refresh fails, the list of fetched models is what it was before:
  the error path records the message, ends the loading state and leaves the list, the
  selection and the fetched flag alone. This holds for every state before the fetch, for
  \<open>handleFetch\<close> as a whole and for its two halves as events of the dialog.
\<close>

theorem failed_fetch_keeps_models:
  "models (handleFetch (Inl err) s) = models s
   \<and> selectedRowKeys (handleFetch (Inl err) s) = selectedRowKeys s
   \<and> fetched (handleFetch (Inl err) s) = fetched s
   \<and> error (handleFetch (Inl err) s) = Some (errorMsg err)
   \<and> loading (handleFetch (Inl err) s) = False
   \<and> state (run c [ClickFetch, FetchSettled (Inl err)]) = handleFetch (Inl err) (state c)
   \<and> models (state (run c [ClickFetch, FetchSettled (Inl err)])) = models (state c)"
  by (simp add: run_def step_ClickFetch step_FetchSettled)
     (simp add: handleFetch_def handleFetch_begin_def handleFetch_settled_def)

text \<open>
  C10. On confirm, the success callback receives exactly the fetched models whose ids
  are among the selected keys: they are taken from the full list of fetched models, in
  its order, whatever the search text and whatever the order of the selected keys. In the
  example the search for \<open>gpt\<close> hides \<open>claude-3\<close>, which was selected first; the
  callback receives \<open>gpt-4\<close> and then \<open>claude-3\<close>.
\<close>

theorem handleConfirm_selected:
  "handleConfirm s = filter (\<lambda>m. model_id m \<in> set (selectedRowKeys s)) (models s)
   \<and> handleConfirm (s\<lparr>searchText := q\<rparr>) = handleConfirm s
   \<and> (set keys = set keys' \<longrightarrow>
        handleConfirm (s\<lparr>selectedRowKeys := keys\<rparr>) = handleConfirm (s\<lparr>selectedRowKeys := keys'\<rparr>))
   \<and> filteredModels unicode (models searching) (searchText searching) = [model ''gpt-4'']
   \<and> handleConfirm searching = [model ''gpt-4'', model ''claude-3'']"
proof -
  have 1: "handleConfirm s = filter (\<lambda>m. model_id m \<in> set (selectedRowKeys s)) (models s)"
    by (simp add: handleConfirm_def arr_includes_iff)
  have 2: "handleConfirm (s\<lparr>searchText := q\<rparr>) = handleConfirm s"
    by (simp add: handleConfirm_def)
  have 3: "set keys = set keys' \<longrightarrow>
        handleConfirm (s\<lparr>selectedRowKeys := keys\<rparr>) = handleConfirm (s\<lparr>selectedRowKeys := keys'\<rparr>)"
    by (simp add: handleConfirm_def arr_includes_iff)
  have 4: "filteredModels unicode (models searching) (searchText searching) = [model ''gpt-4'']"
    by (simp add: searching_def filteredModels_def model_def and_then_def Let_def
        toLowerCase_ascii is_ascii_def ascii_lower_eq_iff same_letter_def)
  have 5: "handleConfirm searching = [model ''gpt-4'', model ''claude-3'']"
    by (simp add: searching_def handleConfirm_def model_def)
  from 1 2 3 4 5 show ?thesis by (intro conjI)
qed

theorem handleConfirm_selected_witness:
  "handleConfirm (searching\<lparr>selectedRowKeys := [''gpt-4'', ''claude-3'']\<rparr>)
     = handleConfirm (searching\<lparr>selectedRowKeys := [''claude-3'', ''gpt-4'']\<rparr>)"
proof -
  have "set [''gpt-4'', ''claude-3''] = set [''claude-3'', ''gpt-4'']" by auto
  with handleConfirm_selected [of searching _ "[''gpt-4'', ''claude-3'']" "[''claude-3'', ''gpt-4'']"]
  show ?thesis by blast
qed

end
